theory Spec2Isabelle
  imports Main Complex_Main "HOL-Library.Sublist" "HOL-Library.Multiset"
begin

section \<open>The inference service (services/gemini.ts)\<close>

subsection \<open>Values\<close>

text \<open>
  The analysis scope \<^verbatim>\<open>'India' | 'Global'\<close> and its spelling inside a template string.
\<close>

datatype ctx = India | Global

fun ctx_name :: "ctx \<Rightarrow> string" where
  "ctx_name India = ''India''"
| "ctx_name Global = ''Global''"

text \<open>
  What \<^verbatim>\<open>JSON.parse\<close> can return. Numbers are reals: nothing below does arithmetic on
  them, they are only carried along and compared with the bounds.
\<close>

datatype json =
    JNull
  | JBool bool
  | JNumber real
  | JString string
  | JArray "json list"
  | JObject "(string \<times> json) list"

text \<open>
  The text of a response is represented by what \<^verbatim>\<open>JSON.parse\<close> makes of it:
  \<open>TextAbsent\<close> is a falsy text (\<^verbatim>\<open>undefined\<close> or the empty string),
  \<open>TextJSON v\<close> a text that parses to \<open>v\<close>, \<open>TextMalformed m\<close> a non-empty text on
  which the parser throws a SyntaxError with message \<open>m\<close>.
\<close>

datatype response_text = TextAbsent | TextJSON json | TextMalformed string

record chunk_web =
  title :: "string option"
  uri :: "string option"

record grounding_chunk =
  web :: "chunk_web option"

record grounding_metadata =
  groundingChunks :: "grounding_chunk list option"

record candidate =
  groundingMetadata :: "grounding_metadata option"

text \<open>The field \<^verbatim>\<open>text\<close> is spelled \<open>resp_text\<close> here.\<close>

record response =
  resp_text :: response_text
  candidates :: "candidate list option"

text \<open>A thrown value: an Error object, whose \<^verbatim>\<open>message\<close> may be missing.\<close>

datatype js_error = JsError (message: "string option")

record source =
  src_title :: string
  url :: string

text \<open>
  The object \<^verbatim>\<open>{ ...data, sources }\<close>: the own properties copied from \<^verbatim>\<open>data\<close>
  (a property of \<^verbatim>\<open>data\<close> named \<^verbatim>\<open>sources\<close> is overwritten, so it is not among
  them), and the \<^verbatim>\<open>sources\<close> list.
\<close>

record sentiment_data =
  members :: "(string \<times> json) list"
  sources :: "source list"

subsection \<open>Helpers of the language\<close>

text \<open>\<^verbatim>\<open>a || d\<close> on an optional string: a missing or empty string is falsy.\<close>

fun or_default :: "string option \<Rightarrow> string \<Rightarrow> string" where
  "or_default None d = d"
| "or_default (Some s) d = (if s = [] then d else s)"

text \<open>The decimal spelling of an array index, as a property name.\<close>

definition digit_char :: "nat \<Rightarrow> char" where
  "digit_char d = char_of (48 + d)"

function index_name :: "nat \<Rightarrow> string" where
  "index_name n = (if n < 10 then [digit_char n] else index_name (n div 10) @ [digit_char (n mod 10)])"
  by pat_completeness auto
termination
  by (relation "measure (\<lambda>n. n)") auto

declare index_name.simps [simp del]

text \<open>
  The own enumerable properties that an object spread copies from a value: those of an
  object, the indexed elements of an array, the indexed characters of a string, and
  nothing from \<^verbatim>\<open>null\<close>, a boolean or a number.
\<close>

fun spread :: "json \<Rightarrow> (string \<times> json) list" where
  "spread (JObject kvs) = kvs"
| "spread (JArray xs) = zip (map index_name [0..<length xs]) xs"
| "spread (JString s) = zip (map index_name [0..<length s]) (map (\<lambda>c. JString [c]) s)"
| "spread _ = []"

subsection \<open>getCommoditySentiment\<close>

text \<open>\<^verbatim>\<open>JSON.parse(response.text || "{}")\<close>.\<close>

fun parse_text :: "response_text \<Rightarrow> js_error + json" where
  "parse_text TextAbsent = Inr (JObject [])"
| "parse_text (TextJSON v) = Inr v"
| "parse_text (TextMalformed m) = Inl (JsError (Some m))"

text \<open>
  \<^verbatim>\<open>chunk => ({ title: chunk.web?.title || "Source", url: chunk.web?.uri || "#" })\<close>
\<close>

definition chunk_source :: "grounding_chunk \<Rightarrow> source" where
  "chunk_source chunk =
     \<lparr>src_title = or_default (case web chunk of None \<Rightarrow> None | Some w \<Rightarrow> title w) ''Source'',
      url = or_default (case web chunk of None \<Rightarrow> None | Some w \<Rightarrow> uri w) ''#''\<rparr>"

text \<open>
  \<^verbatim>\<open>response.candidates?.[0]?.groundingMetadata?.groundingChunks?.map(...) || []\<close>
\<close>

definition extract_sources :: "response \<Rightarrow> source list" where
  "extract_sources r =
     (case candidates r of
        None \<Rightarrow> []
      | Some [] \<Rightarrow> []
      | Some (c # _) \<Rightarrow>
          (case groundingMetadata c of
             None \<Rightarrow> []
           | Some gm \<Rightarrow>
               (case groundingChunks gm of
                  None \<Rightarrow> []
                | Some chunks \<Rightarrow> map chunk_source chunks)))"

text \<open>
  The call itself. The commodity and the context only enter the prompt; the third argument
  is how \<^verbatim>\<open>ai.models.generateContent\<close> settles: it throws, or it returns a response.
\<close>

definition getCommoditySentiment :: "string \<Rightarrow> ctx \<Rightarrow> js_error + response \<Rightarrow> js_error + sentiment_data" where
  "getCommoditySentiment commodity context generated =
     (case generated of
        Inl err \<Rightarrow> Inl err
      | Inr resp \<Rightarrow>
          (case parse_text (resp_text resp) of
             Inl err \<Rightarrow> Inl err
           | Inr data \<Rightarrow>
               Inr \<lparr>members = filter (\<lambda>kv. fst kv \<noteq> ''sources'') (spread data),
                    sources = extract_sources resp\<rparr>))"

section \<open>The dashboard component (App)\<close>

subsection \<open>State\<close>

definition COMMODITIES :: "string list" where
  "COMMODITIES = [''Wheat'', ''Cashew'', ''Maize'', ''Chana'', ''Sugar'']"

text \<open>The cache key, the template string \<^verbatim>\<open>`${commodity}-${ctx}`\<close>.\<close>

definition entity_key :: "string \<Rightarrow> ctx \<Rightarrow> string" where
  "entity_key commodity c = commodity @ ''-'' @ ctx_name c"

text \<open>
  The seven \<^verbatim>\<open>useState\<close> cells. The cell \<^verbatim>\<open>context\<close> is spelled \<open>cur_context\<close>.
\<close>

record app_state =
  cur_context :: ctx
  selectedCommodity :: "string option"
  loading :: bool
  sentimentData :: "string \<rightharpoonup> sentiment_data"
  error :: "string option"
  expandedDriver :: "nat option"
  refreshIndex :: nat

definition initial_state :: app_state where
  "initial_state =
     \<lparr>cur_context = India, selectedCommodity = None, loading = False,
      sentimentData = Map.empty, error = None, expandedDriver = None, refreshIndex = 0\<rparr>"

text \<open>
  What a handler does, in order: calls of the state setters, and the call of the inference
  service. \<open>SetSentimentData k d\<close> is the functional update
  \<^verbatim>\<open>setSentimentData(prev => ({ ...prev, [k]: d }))\<close>.
\<close>

datatype effect =
    SetContext ctx
  | SetSelectedCommodity "string option"
  | SetLoading bool
  | SetSentimentData string sentiment_data
  | SetError "string option"
  | SetExpandedDriver "nat option"
  | SetRefreshIndex nat
  | GetCommoditySentiment string ctx

fun apply_effect :: "effect \<Rightarrow> app_state \<Rightarrow> app_state" where
  "apply_effect (SetContext c) a = a\<lparr>cur_context := c\<rparr>"
| "apply_effect (SetSelectedCommodity c) a = a\<lparr>selectedCommodity := c\<rparr>"
| "apply_effect (SetLoading b) a = a\<lparr>loading := b\<rparr>"
| "apply_effect (SetSentimentData k d) a = a\<lparr>sentimentData := (sentimentData a)(k \<mapsto> d)\<rparr>"
| "apply_effect (SetError e) a = a\<lparr>error := e\<rparr>"
| "apply_effect (SetExpandedDriver d) a = a\<lparr>expandedDriver := d\<rparr>"
| "apply_effect (SetRefreshIndex i) a = a\<lparr>refreshIndex := i\<rparr>"
| "apply_effect (GetCommoditySentiment commodity c) a = a"

definition run :: "effect list \<Rightarrow> app_state \<Rightarrow> app_state" where
  "run effects a = fold apply_effect effects a"

text \<open>The number of cache writes among the effects.\<close>

fun is_cache_write :: "effect \<Rightarrow> bool" where
  "is_cache_write (SetSentimentData k d) = True"
| "is_cache_write _ = False"

definition cache_writes :: "effect list \<Rightarrow> nat" where
  "cache_writes effects = length (filter is_cache_write effects)"

subsection \<open>fetchSentiment\<close>

text \<open>\<^verbatim>\<open>s.includes(t)\<close>: \<open>t\<close> occurs in \<open>s\<close> as a contiguous piece.\<close>

fun str_includes :: "string \<Rightarrow> string \<Rightarrow> bool" where
  "str_includes [] t = (t = [])"
| "str_includes (c # s) t = (prefix t (c # s) \<or> str_includes s t)"

text \<open>\<^verbatim>\<open>err.message?.includes(t)\<close>, used as a condition: a missing message is falsy.\<close>

definition message_includes :: "js_error \<Rightarrow> string \<Rightarrow> bool" where
  "message_includes err t = (case message err of None \<Rightarrow> False | Some m \<Rightarrow> str_includes m t)"

text \<open>\<^verbatim>\<open>${err.message}\<close> inside a template string.\<close>

definition message_text :: "js_error \<Rightarrow> string" where
  "message_text err = (case message err of None \<Rightarrow> ''undefined'' | Some m \<Rightarrow> m)"

text \<open>The message that the catch block computes for a foreground fetch.\<close>

definition error_message :: "js_error \<Rightarrow> string" where
  "error_message err =
     (if message_includes err ''API_KEY'' then ''Gemini API Key is missing or invalid.''
      else if message_includes err ''network'' \<or> message_includes err ''fetch''
        then ''Network error: Unable to reach the AI service.''
      else if message_includes err ''429'' then ''Rate limit exceeded. Please wait.''
      else ''Error: '' @ message_text err)"

text \<open>The statements of \<^verbatim>\<open>fetchSentiment\<close> before the \<^verbatim>\<open>await\<close>.\<close>

definition fetch_before :: "bool \<Rightarrow> effect list" where
  "fetch_before isPrefetch = (if \<not> isPrefetch then [SetLoading True] else []) @ [SetError None]"

text \<open>
  The statements after the \<^verbatim>\<open>await\<close>, given how the awaited call settled: the rest of
  the \<^verbatim>\<open>try\<close> block or the \<^verbatim>\<open>catch\<close> block, then the \<^verbatim>\<open>finally\<close> block.
\<close>

definition fetch_after :: "string \<Rightarrow> ctx \<Rightarrow> bool \<Rightarrow> js_error + sentiment_data \<Rightarrow> effect list" where
  "fetch_after commodity c isPrefetch settled =
     (case settled of
        Inr data \<Rightarrow> [SetSentimentData (entity_key commodity c) data]
      | Inl err \<Rightarrow> (if \<not> isPrefetch then [SetError (Some (error_message err))] else []))
     @ (if \<not> isPrefetch then [SetLoading False] else [])"

text \<open>
  One whole dispatch, with nothing else running in between; the last argument is how
  \<^verbatim>\<open>generateContent\<close> settles.
\<close>

definition fetchSentiment :: "string \<Rightarrow> ctx \<Rightarrow> bool \<Rightarrow> js_error + response \<Rightarrow> effect list" where
  "fetchSentiment commodity c isPrefetch generated =
     fetch_before isPrefetch
     @ [GetCommoditySentiment commodity c]
     @ fetch_after commodity c isPrefetch (getCommoditySentiment commodity c generated)"

subsection \<open>The view\<close>

text \<open>
  \<^verbatim>\<open>selectedCommodity ? sentimentData[`${selectedCommodity}-${context}`] : null\<close>; the empty
  string is falsy.
\<close>

definition currentData :: "app_state \<Rightarrow> sentiment_data option" where
  "currentData a =
     (case selectedCommodity a of
        None \<Rightarrow> None
      | Some commodity \<Rightarrow>
          (if commodity = [] then None else sentimentData a (entity_key commodity (cur_context a))))"

text \<open>
  What \<^verbatim>\<open><main>\<close> shows: the grid of cards when nothing is selected, and otherwise, in
  this order of the conditional, the spinner while \<^verbatim>\<open>loading\<close>, the error panel (with the
  retry button) when \<^verbatim>\<open>error\<close> is a non-empty string, the report on \<^verbatim>\<open>currentData\<close> when
  there is one, and nothing at all.
\<close>

datatype panel = Grid | Spinner | ErrorPanel string | Details sentiment_data | Blank

definition main_panel :: "app_state \<Rightarrow> panel" where
  "main_panel a =
     (if selectedCommodity a = None \<or> selectedCommodity a = Some [] then Grid
      else if loading a then Spinner
      else (case error a of
              Some (ch # m) \<Rightarrow> ErrorPanel (ch # m)
            | _ \<Rightarrow> (case currentData a of Some d \<Rightarrow> Details d | None \<Rightarrow> Blank)))"

text \<open>
  Reading a property of \<^verbatim>\<open>undefined\<close> or \<^verbatim>\<open>null\<close> throws a TypeError; a property of any
  other value can be read.
\<close>

fun nullish :: "json option \<Rightarrow> bool" where
  "nullish None = True"
| "nullish (Some JNull) = True"
| "nullish (Some v) = False"

text \<open>
  The ticker, which is always rendered, evaluates \<^verbatim>\<open>data?.current.score\<close> and
  \<^verbatim>\<open>data?.current.label\<close> for the entry \<^verbatim>\<open>data\<close> of every tracked subject under the current
  context: it throws when such an entry exists and its \<^verbatim>\<open>current\<close> is missing or null.
  The cards of the grid evaluate the same expression on the same entries.
\<close>

definition ticker_throws :: "app_state \<Rightarrow> bool" where
  "ticker_throws a =
     list_ex (\<lambda>name.
        case sentimentData a (entity_key name (cur_context a)) of
          None \<Rightarrow> False
        | Some data \<Rightarrow> nullish (map_of (members data) ''current'')) COMMODITIES"

text \<open>
  The report reads \<^verbatim>\<open>.score\<close> of \<^verbatim>\<open>currentData.historical\<close>, \<^verbatim>\<open>.current\<close> and
  \<^verbatim>\<open>.longTerm\<close>, calls \<^verbatim>\<open>currentData.drivers.map\<close>, which only an array has, and reads
  \<^verbatim>\<open>.impact\<close> of every driver.
\<close>

definition details_throw :: "sentiment_data \<Rightarrow> bool" where
  "details_throw d =
     (nullish (map_of (members d) ''historical'')
      \<or> nullish (map_of (members d) ''current'')
      \<or> nullish (map_of (members d) ''longTerm'')
      \<or> (case map_of (members d) ''drivers'' of
            Some (JArray drivers) \<Rightarrow> list_ex (\<lambda>driver. driver = JNull) drivers
          | _ \<Rightarrow> True))"

definition view_throws :: "app_state \<Rightarrow> bool" where
  "view_throws a =
     (ticker_throws a \<or> (case main_panel a of Details d \<Rightarrow> details_throw d | _ \<Rightarrow> False))"

text \<open>
  Whether rendering a state throws. The expressions of the component's own markup are
  covered by \<open>view_throws\<close>. \<open>other\<close> stands for everything else that takes part in a
  render, React itself and the libraries that draw the elements (a parsed object given as
  a child, for one, is refused by React): it says for which states one of them throws.
  The theorems hold for every \<open>other\<close>.
\<close>

definition render_throws :: "(app_state \<Rightarrow> bool) \<Rightarrow> app_state \<Rightarrow> bool" where
  "render_throws other a = (view_throws a \<or> other a)"

subsection \<open>The component as a transition system\<close>

text \<open>
  A dispatch that is suspended at its \<^verbatim>\<open>await\<close>. \<open>req_rest\<close> holds the subjects that the
  loop of \<^verbatim>\<open>initialFetch\<close> still has to visit once this dispatch has settled; it is empty
  for a dispatch that no loop is waiting for.
\<close>

record request =
  req_commodity :: string
  req_ctx :: ctx
  req_isPrefetch :: bool
  req_rest :: "string list"

text \<open>
  The component: its state cells, the suspended dispatches, and the log of the calls of
  \<^verbatim>\<open>fetchSentiment\<close> made so far (commodity, context, isPrefetch), oldest first. There is
  no error boundary: when a render throws, React unmounts the component, and its state
  cells are gone (\<open>app = None\<close>). The effect clean-up stops the interval; the suspended
  dispatches and the loops awaiting them run on, and their state setters do nothing.
\<close>

record sys =
  app :: "app_state option"
  inflight :: "request list"
  issued :: "(string \<times> ctx \<times> bool) list"

text \<open>Calls of state setters; on an unmounted component they do nothing.\<close>

definition set_state :: "effect list \<Rightarrow> sys \<Rightarrow> sys" where
  "set_state effects s = s\<lparr>app := map_option (run effects) (app s)\<rparr>"

text \<open>
  The render that follows the state writes of a step (they are batched): if it throws, the
  component is unmounted.
\<close>

definition render :: "(app_state \<Rightarrow> bool) \<Rightarrow> sys \<Rightarrow> sys" where
  "render other s =
     (case app s of
        None \<Rightarrow> s
      | Some a \<Rightarrow> (if render_throws other a then s\<lparr>app := None\<rparr> else s))"

text \<open>The cache as the component holds it.\<close>

definition cache_entry :: "sys \<Rightarrow> string \<Rightarrow> sentiment_data option" where
  "cache_entry s k = (case app s of None \<Rightarrow> None | Some a \<Rightarrow> sentimentData a k)"

text \<open>Calling \<^verbatim>\<open>fetchSentiment\<close>: it runs up to its \<^verbatim>\<open>await\<close> and is suspended there.\<close>

definition issue :: "string \<Rightarrow> ctx \<Rightarrow> bool \<Rightarrow> string list \<Rightarrow> sys \<Rightarrow> sys" where
  "issue commodity c isPrefetch rest s =
     (set_state (fetch_before isPrefetch) s)
       \<lparr>inflight := inflight s @
          [\<lparr>req_commodity = commodity, req_ctx = c, req_isPrefetch = isPrefetch, req_rest = rest\<rparr>],
        issued := issued s @ [(commodity, c, isPrefetch)]\<rparr>"

text \<open>
  The loop \<^verbatim>\<open>for (const commodity of COMMODITIES) await fetchSentiment(commodity, context, true)\<close>,
  from a given position up to its next suspension.
\<close>

fun initialFetch :: "string list \<Rightarrow> ctx \<Rightarrow> sys \<Rightarrow> sys" where
  "initialFetch [] c s = s"
| "initialFetch (commodity # rest) c s = issue commodity c True rest s"

text \<open>
  The first render, which shows no entry of the cache and is taken to succeed, and its
  effects.
\<close>

definition mount :: sys where
  "mount = initialFetch COMMODITIES India \<lparr>app = Some initial_state, inflight = [], issued = []\<rparr>"

text \<open>
  A context button: \<^verbatim>\<open>setContext\<close>. When the value changes the component renders with the
  new context, and only if that render succeeds does the effect with the dependency
  \<^verbatim>\<open>[context]\<close> run again; the state write of that effect is followed by a render of its
  own.
\<close>

definition setContext :: "(app_state \<Rightarrow> bool) \<Rightarrow> ctx \<Rightarrow> sys \<Rightarrow> sys" where
  "setContext other c s =
     (case app s of
        None \<Rightarrow> s
      | Some a \<Rightarrow>
          (if c = cur_context a then s
           else (let s1 = render other (set_state [SetContext c] s)
                 in case app s1 of
                      None \<Rightarrow> s1
                    | Some a1 \<Rightarrow> render other (initialFetch COMMODITIES c s1))))"

text \<open>The callback of the 45 second interval.\<close>

definition tick :: "sys \<Rightarrow> sys" where
  "tick s =
     (case app s of
        None \<Rightarrow> s
      | Some a \<Rightarrow>
          (let nextIndex = (refreshIndex a + 1) mod length COMMODITIES
           in issue (COMMODITIES ! nextIndex) (cur_context a) True []
                (set_state [SetRefreshIndex nextIndex] s)))"

definition handleCommodityClick :: "string \<Rightarrow> sys \<Rightarrow> sys" where
  "handleCommodityClick commodity s =
     (case app s of
        None \<Rightarrow> s
      | Some a \<Rightarrow>
          (let s' = set_state [SetSelectedCommodity (Some commodity), SetExpandedDriver None] s
           in if sentimentData a (entity_key commodity (cur_context a)) = None
              then issue commodity (cur_context a) False [] s'
              else s'))"

text \<open>The button "Back to Dashboard".\<close>

definition backToDashboard :: "sys \<Rightarrow> sys" where
  "backToDashboard s = set_state [SetSelectedCommodity None] s"

text \<open>The button "Retry Analysis"; it exists only in the error panel.\<close>

definition retry :: "sys \<Rightarrow> sys" where
  "retry s =
     (case app s of
        None \<Rightarrow> s
      | Some a \<Rightarrow>
          (case (main_panel a, selectedCommodity a) of
             (ErrorPanel m, Some commodity) \<Rightarrow> issue commodity (cur_context a) False [] s
           | _ \<Rightarrow> s))"

text \<open>\<^verbatim>\<open>setExpandedDriver(expandedDriver === idx ? null : idx)\<close>\<close>

definition toggleDriver :: "nat \<Rightarrow> sys \<Rightarrow> sys" where
  "toggleDriver idx s =
     (case app s of
        None \<Rightarrow> s
      | Some a \<Rightarrow>
          set_state [SetExpandedDriver (if expandedDriver a = Some idx then None else Some idx)] s)"

text \<open>
  The suspended dispatch number \<open>i\<close> resumes, \<^verbatim>\<open>generateContent\<close> having settled as given;
  the loop that awaited it, if any, goes on to its next subject.
\<close>

definition settle :: "nat \<Rightarrow> js_error + response \<Rightarrow> sys \<Rightarrow> sys" where
  "settle i generated s =
     (if i < length (inflight s) then
        (let r = inflight s ! i;
             settled = getCommoditySentiment (req_commodity r) (req_ctx r) generated
         in initialFetch (req_rest r) (req_ctx r)
              ((set_state (fetch_after (req_commodity r) (req_ctx r) (req_isPrefetch r) settled) s)
                 \<lparr>inflight := take i (inflight s) @ drop (Suc i) (inflight s)\<rparr>))
      else s)"

datatype event =
    EvSetContext ctx
  | EvTick
  | EvClick string
  | EvBack
  | EvRetry
  | EvToggleDriver nat
  | EvSettle nat "js_error + response"

text \<open>
  One event: its handler, then the render of the state it leaves. An event of the user is
  accepted in every mounted state, also where the view does not offer its button; this
  only adds runs.
\<close>

fun step :: "(app_state \<Rightarrow> bool) \<Rightarrow> event \<Rightarrow> sys \<Rightarrow> sys" where
  "step other (EvSetContext c) s = setContext other c s"
| "step other EvTick s = render other (tick s)"
| "step other (EvClick commodity) s = render other (handleCommodityClick commodity s)"
| "step other EvBack s = render other (backToDashboard s)"
| "step other EvRetry s = render other (retry s)"
| "step other (EvToggleDriver idx) s = render other (toggleDriver idx s)"
| "step other (EvSettle i generated) s = render other (settle i generated s)"

definition exec :: "(app_state \<Rightarrow> bool) \<Rightarrow> event list \<Rightarrow> sys \<Rightarrow> sys" where
  "exec other events s = fold (step other) events s"

inductive reachable :: "(app_state \<Rightarrow> bool) \<Rightarrow> sys \<Rightarrow> bool" for other where
  reachable_mount: "reachable other mount"
| reachable_step: "reachable other s \<Longrightarrow> reachable other (step other e s)"

text \<open>Nothing outside the markup throws.\<close>

definition no_other_throw :: "app_state \<Rightarrow> bool" where
  "no_other_throw a = False"

section \<open>Notions of the specification\<close>

text \<open>Whether an effect writes the in-flight flag.\<close>

fun sets_loading :: "effect \<Rightarrow> bool" where
  "sets_loading (SetLoading b) = True"
| "sets_loading _ = False"

text \<open>
  A time-horizon sub-record that is present, with a numeric score between -100 and 100.
  Property names of an object are looked up with \<open>map_of\<close>.
\<close>

definition timeline_ok :: "json option \<Rightarrow> bool" where
  "timeline_ok j =
     (case j of
        Some (JObject kvs) \<Rightarrow>
          (case map_of kvs ''score'' of
             Some (JNumber x) \<Rightarrow> - 100 \<le> x \<and> x \<le> 100
           | _ \<Rightarrow> False)
      | _ \<Rightarrow> False)"

definition horizons_ok :: "(string \<times> json) list \<Rightarrow> bool" where
  "horizons_ok ms =
     (timeline_ok (map_of ms ''historical'')
      \<and> timeline_ok (map_of ms ''current'')
      \<and> timeline_ok (map_of ms ''longTerm''))"

text \<open>
  Following one loop of \<open>initialFetch\<close> through a run in which anything may happen in
  between. The loop is known by the position \<open>j\<close> of the dispatch it awaits among the
  suspended ones. Settling a dispatch that stands before it moves it down by one; settling
  its own dispatch makes it go on, and the dispatch it then awaits, if any, is the newest.
  The result lists, for each time the loop's own dispatch settled, the calls of
  \<^verbatim>\<open>fetchSentiment\<close> that were logged during that step, and gives the position of the
  dispatch the loop awaits at the end, or \<open>None\<close> when the loop is over.
\<close>

fun follow :: "(app_state \<Rightarrow> bool) \<Rightarrow> nat \<Rightarrow> event list \<Rightarrow> sys
    \<Rightarrow> (string \<times> ctx \<times> bool) list list \<times> nat option" where
  "follow other j [] s = ([], Some j)"
| "follow other j (EvSettle i generated # es) s =
     (if i < length (inflight s) \<and> i = j then
        (let calls = drop (length (issued s)) (issued (step other (EvSettle i generated) s))
         in if req_rest (inflight s ! j) = [] then ([calls], None)
            else (case follow other (length (inflight s) - 1) es (step other (EvSettle i generated) s) of
                    (ks, p) \<Rightarrow> (calls # ks, p)))
      else follow other (if i < length (inflight s) \<and> i < j then j - 1 else j) es
             (step other (EvSettle i generated) s))"
| "follow other j (e # es) s = follow other j es (step other e s)"

section \<open>Basic facts\<close>

lemma run_Nil [simp]: "run [] a = a"
  by (simp add: run_def)

lemma run_Cons [simp]: "run (e # es) a = run es (apply_effect e a)"
  by (simp add: run_def)

lemma run_append [simp]: "run (es @ fs) a = run fs (run es a)"
  by (simp add: run_def)

lemma str_includes_sublist: "str_includes s t \<longleftrightarrow> sublist t s"
  by (induction s) (simp_all add: sublist_Cons_right)

lemma entity_key_inj:
  assumes "entity_key commodity c = entity_key commodity' c'"
  shows "commodity = commodity' \<and> c = c'"
proof -
  have "rev (commodity @ ''-'' @ ctx_name c) = rev (commodity' @ ''-'' @ ctx_name c')"
    using assms by (simp add: entity_key_def)
  then have "c = c'"
    by (cases c; cases c') simp_all
  with assms show ?thesis
    by (simp add: entity_key_def)
qed

section \<open>One dispatch\<close>

text \<open>
  C9. A foreground dispatch starts with \<^verbatim>\<open>setLoading(true)\<close> and \<^verbatim>\<open>setError(null)\<close>,
  both before the inference call, so the in-flight flag is true and the error is cleared
  when the call is issued; after the statements that follow the call the flag is false,
  whether the call succeeded or failed. A prefetch dispatch contains no write of the flag
  at all and leaves it as it was.
\<close>

theorem fetchSentiment_loading_flag:
  "take 3 (fetchSentiment commodity c False generated)
     = [SetLoading True, SetError None, GetCommoditySentiment commodity c]
   \<and> loading (run (fetch_before False) a) = True
   \<and> error (run (fetch_before False) a) = None
   \<and> loading (run (fetch_after commodity c False settled) a') = False
   \<and> loading (run (fetchSentiment commodity c False generated) a) = False
   \<and> filter sets_loading (fetchSentiment commodity c True generated) = []
   \<and> loading (run (fetch_before True) a) = loading a
   \<and> loading (run (fetch_after commodity c True settled) a') = loading a'
   \<and> loading (run (fetchSentiment commodity c True generated) a) = loading a"
  by (simp add: fetchSentiment_def fetch_before_def fetch_after_def split: sum.splits)

text \<open>
  C3. A dispatch whose call succeeds writes the cache exactly once, at the key of its
  (subject, context): the entry there is the result, the entry of every other key, and so
  of every other (subject, context) pair, is as before. A dispatch whose call fails
  writes the cache zero times, and the cache is as before.
\<close>

theorem fetchSentiment_cache_writes:
  "(getCommoditySentiment commodity c generated = Inr data \<longrightarrow>
      cache_writes (fetchSentiment commodity c isPrefetch generated) = 1
      \<and> sentimentData (run (fetchSentiment commodity c isPrefetch generated) a) (entity_key commodity c)
          = Some data
      \<and> (\<forall>k. k \<noteq> entity_key commodity c \<longrightarrow>
            sentimentData (run (fetchSentiment commodity c isPrefetch generated) a) k = sentimentData a k)
      \<and> (\<forall>commodity' c'. (commodity', c') \<noteq> (commodity, c) \<longrightarrow>
            sentimentData (run (fetchSentiment commodity c isPrefetch generated) a) (entity_key commodity' c')
              = sentimentData a (entity_key commodity' c')))
   \<and> (getCommoditySentiment commodity c generated = Inl err \<longrightarrow>
         cache_writes (fetchSentiment commodity c isPrefetch generated) = 0
         \<and> sentimentData (run (fetchSentiment commodity c isPrefetch generated) a) = sentimentData a)"
  using entity_key_inj
  by (auto simp add: fetchSentiment_def fetch_before_def fetch_after_def cache_writes_def)

theorem fetchSentiment_cache_writes_witness:
  "getCommoditySentiment ''Wheat'' India (Inr \<lparr>resp_text = TextAbsent, candidates = None\<rparr>)
     = Inr \<lparr>members = [], sources = []\<rparr>
   \<and> getCommoditySentiment ''Wheat'' India (Inl (JsError (Some ''fetch failed''))) = Inl (JsError (Some ''fetch failed''))
   \<and> cache_writes (fetchSentiment ''Wheat'' India True (Inr \<lparr>resp_text = TextAbsent, candidates = None\<rparr>)) = 1
   \<and> sentimentData (run (fetchSentiment ''Wheat'' India True (Inr \<lparr>resp_text = TextAbsent, candidates = None\<rparr>)) initial_state)
        ''Sugar-India'' = None
   \<and> cache_writes (fetchSentiment ''Wheat'' India True (Inl (JsError (Some ''fetch failed'')))) = 0"
  using fetchSentiment_cache_writes [of "''Wheat''" India "Inr \<lparr>resp_text = TextAbsent, candidates = None\<rparr>"
      "\<lparr>members = [], sources = []\<rparr>" True initial_state "JsError None"]
    fetchSentiment_cache_writes [of "''Wheat''" India "Inl (JsError (Some ''fetch failed''))"
      "\<lparr>members = [], sources = []\<rparr>" True initial_state "JsError (Some ''fetch failed'')"]
  by (simp add: getCommoditySentiment_def extract_sources_def entity_key_def initial_state_def)



text \<open>
  C1. A prefetch dispatch leaves the in-flight flag alone (see C9), but not the error
  state: \<^verbatim>\<open>setError(null)\<close> runs for every dispatch, unlike the other writes of
  user-visible state, which are guarded by \<^verbatim>\<open>!isPrefetch\<close>. Here the error of an earlier
  foreground failure is gone after a prefetch dispatch that fails.
\<close>

theorem prefetch_failure_clears_error:
  "error (initial_state\<lparr>error := Some ''Rate limit exceeded. Please wait.''\<rparr>)
     = Some ''Rate limit exceeded. Please wait.''
   \<and> getCommoditySentiment ''Wheat'' India (Inl (JsError (Some ''fetch failed''))) = Inl (JsError (Some ''fetch failed''))
   \<and> error (run (fetchSentiment ''Wheat'' India True (Inl (JsError (Some ''fetch failed''))))
        (initial_state\<lparr>error := Some ''Rate limit exceeded. Please wait.''\<rparr>)) = None"
  by (simp add: getCommoditySentiment_def fetchSentiment_def fetch_before_def fetch_after_def initial_state_def)

section \<open>Results of the inference service\<close>

lemma chunk_source_no_web:
  "web chunk = None \<Longrightarrow> chunk_source chunk = \<lparr>src_title = ''Source'', url = ''#''\<rparr>"
  by (simp add: chunk_source_def)

lemma chunk_source_web:
  "web chunk = Some w \<Longrightarrow>
     (title w = None \<longrightarrow> src_title (chunk_source chunk) = ''Source'')
     \<and> (uri w = None \<longrightarrow> url (chunk_source chunk) = ''#'')
     \<and> (\<forall>t. title w = Some t \<and> t \<noteq> [] \<longrightarrow> src_title (chunk_source chunk) = t)
     \<and> (\<forall>u. uri w = Some u \<and> u \<noteq> [] \<longrightarrow> url (chunk_source chunk) = u)"
  by (simp add: chunk_source_def)

text \<open>
  C10, as the code has it. For a response whose text is empty or is JSON,
  \<^verbatim>\<open>getCommoditySentiment\<close> returns a result, and its \<^verbatim>\<open>sources\<close> is a list: empty when
  there are no candidates, no grounding metadata or no grounding chunks, and otherwise one
  source per chunk, in order, with the title \<^verbatim>\<open>"Source"\<close> for a missing web title and the
  url \<^verbatim>\<open>"#"\<close> for a missing URI (both for a chunk with no \<^verbatim>\<open>web\<close>), and the chunk's own
  non-empty title and URI kept.
\<close>

theorem getCommoditySentiment_sources:
  assumes "\<forall>m. resp_text resp \<noteq> TextMalformed m"
  shows "\<exists>d. getCommoditySentiment commodity c (Inr resp) = Inr d
     \<and> (candidates resp = None \<or> candidates resp = Some [] \<longrightarrow> sources d = [])
     \<and> (\<forall>cand rest. candidates resp = Some (cand # rest) \<longrightarrow>
           (groundingMetadata cand = None \<longrightarrow> sources d = [])
           \<and> (\<forall>gm. groundingMetadata cand = Some gm \<longrightarrow>
                 (groundingChunks gm = None \<longrightarrow> sources d = [])
                 \<and> (\<forall>chunks. groundingChunks gm = Some chunks \<longrightarrow>
                       length (sources d) = length chunks
                       \<and> (\<forall>i < length chunks.
                             (web (chunks ! i) = None \<longrightarrow>
                                sources d ! i = \<lparr>src_title = ''Source'', url = ''#''\<rparr>)
                             \<and> (\<forall>w. web (chunks ! i) = Some w \<longrightarrow>
                                   (title w = None \<longrightarrow> src_title (sources d ! i) = ''Source'')
                                   \<and> (uri w = None \<longrightarrow> url (sources d ! i) = ''#'')
                                   \<and> (\<forall>t. title w = Some t \<and> t \<noteq> [] \<longrightarrow> src_title (sources d ! i) = t)
                                   \<and> (\<forall>u. uri w = Some u \<and> u \<noteq> [] \<longrightarrow> url (sources d ! i) = u))))))"
proof -
  obtain data where p: "parse_text (resp_text resp) = Inr data"
    using assms by (cases "resp_text resp") simp_all
  define d where "d = \<lparr>members = filter (\<lambda>kv. fst kv \<noteq> ''sources'') (spread data),
                        sources = extract_sources resp\<rparr>"
  have r: "getCommoditySentiment commodity c (Inr resp) = Inr d"
    using p by (simp add: getCommoditySentiment_def d_def)
  have s: "sources d = extract_sources resp"
    by (simp add: d_def)
  have e: "candidates resp = None \<or> candidates resp = Some [] \<longrightarrow> sources d = []"
    unfolding s by (auto simp add: extract_sources_def)
  have n: "\<forall>cand rest. candidates resp = Some (cand # rest) \<longrightarrow>
           (groundingMetadata cand = None \<longrightarrow> sources d = [])
           \<and> (\<forall>gm. groundingMetadata cand = Some gm \<longrightarrow>
                 (groundingChunks gm = None \<longrightarrow> sources d = [])
                 \<and> (\<forall>chunks. groundingChunks gm = Some chunks \<longrightarrow> sources d = map chunk_source chunks))"
    unfolding s by (simp add: extract_sources_def)
  show ?thesis
    using r e n chunk_source_no_web chunk_source_web
    by (intro exI [of _ d]) (simp add: chunk_source_no_web)
qed

theorem getCommoditySentiment_sources_witness:
  "(\<forall>m. resp_text \<lparr>resp_text = TextAbsent, candidates = Some [\<lparr>groundingMetadata = Some
        \<lparr>groundingChunks = Some [\<lparr>web = None\<rparr>,
           \<lparr>web = Some \<lparr>title = None, uri = Some ''https://example.org/a''\<rparr>\<rparr>,
           \<lparr>web = Some \<lparr>title = Some ''Mandi prices'', uri = Some []\<rparr>\<rparr>]\<rparr>\<rparr>]\<rparr> \<noteq> TextMalformed m)
   \<and> (\<exists>d. getCommoditySentiment ''Wheat'' India (Inr \<lparr>resp_text = TextAbsent, candidates = Some [\<lparr>groundingMetadata = Some
        \<lparr>groundingChunks = Some [\<lparr>web = None\<rparr>,
           \<lparr>web = Some \<lparr>title = None, uri = Some ''https://example.org/a''\<rparr>\<rparr>,
           \<lparr>web = Some \<lparr>title = Some ''Mandi prices'', uri = Some []\<rparr>\<rparr>]\<rparr>\<rparr>]\<rparr>) = Inr d
        \<and> sources d = [\<lparr>src_title = ''Source'', url = ''#''\<rparr>,
                        \<lparr>src_title = ''Source'', url = ''https://example.org/a''\<rparr>,
                        \<lparr>src_title = ''Mandi prices'', url = ''#''\<rparr>])"
  using getCommoditySentiment_sources [of "\<lparr>resp_text = TextAbsent, candidates = Some [\<lparr>groundingMetadata = Some
        \<lparr>groundingChunks = Some [\<lparr>web = None\<rparr>,
           \<lparr>web = Some \<lparr>title = None, uri = Some ''https://example.org/a''\<rparr>\<rparr>,
           \<lparr>web = Some \<lparr>title = Some ''Mandi prices'', uri = Some []\<rparr>\<rparr>]\<rparr>\<rparr>]\<rparr>" "''Wheat''" India]
  by (simp add: getCommoditySentiment_def extract_sources_def chunk_source_def)

text \<open>
  C10, as stated, fails for a response whose text is not JSON: \<^verbatim>\<open>JSON.parse\<close> throws
  before the sources are extracted, and the call returns no result.
\<close>

theorem getCommoditySentiment_malformed_text:
  "getCommoditySentiment ''Wheat'' India
      (Inr \<lparr>resp_text = TextMalformed ''Unexpected end of JSON input'', candidates = None\<rparr>)
     = Inl (JsError (Some ''Unexpected end of JSON input''))"
  by (simp add: getCommoditySentiment_def)

lemma map_of_filter_other:
  "k \<noteq> k' \<Longrightarrow> map_of (filter (\<lambda>kv. fst kv \<noteq> k') kvs) k = map_of kvs k"
  by (induction kvs) auto

lemma horizons_ok_filter:
  "horizons_ok (filter (\<lambda>kv. fst kv \<noteq> ''sources'') kvs) = horizons_ok kvs"
  by (simp add: horizons_ok_def map_of_filter_other)

text \<open>
  C8, as the code has it. The result that a successful dispatch stores is the parsed
  response with \<^verbatim>\<open>sources\<close> set: every other property is the parsed one, unchecked. So
  the three time-horizon sub-records are present with scores within [-100, 100] in the
  stored result exactly when they are so in the parsed response.
\<close>

theorem stored_result_horizons:
  assumes "parse_text (resp_text resp) = Inr data"
  shows "\<exists>d. sentimentData (run (fetchSentiment commodity c isPrefetch (Inr resp)) a) (entity_key commodity c) = Some d
              \<and> (\<forall>k. k \<noteq> ''sources'' \<longrightarrow> map_of (members d) k = map_of (spread data) k)
              \<and> (horizons_ok (members d) \<longleftrightarrow> horizons_ok (spread data))"
  using assms
  by (simp add: fetchSentiment_def fetch_before_def fetch_after_def getCommoditySentiment_def
      horizons_ok_filter map_of_filter_other)

theorem stored_result_horizons_witness:
  "parse_text (resp_text \<lparr>resp_text = TextJSON (JObject
        [(''historical'', JObject [(''score'', JNumber 40)]),
         (''current'', JObject [(''score'', JNumber (- 100))]),
         (''longTerm'', JObject [(''score'', JNumber 100)])]), candidates = None\<rparr>)
     = Inr (JObject
        [(''historical'', JObject [(''score'', JNumber 40)]),
         (''current'', JObject [(''score'', JNumber (- 100))]),
         (''longTerm'', JObject [(''score'', JNumber 100)])])
   \<and> (\<exists>d. sentimentData (run (fetchSentiment ''Wheat'' India True (Inr \<lparr>resp_text = TextJSON (JObject
        [(''historical'', JObject [(''score'', JNumber 40)]),
         (''current'', JObject [(''score'', JNumber (- 100))]),
         (''longTerm'', JObject [(''score'', JNumber 100)])]), candidates = None\<rparr>)) initial_state)
          (entity_key ''Wheat'' India) = Some d
        \<and> horizons_ok (members d))"
proof -
  have p: "parse_text (resp_text \<lparr>resp_text = TextJSON (JObject
        [(''historical'', JObject [(''score'', JNumber 40)]),
         (''current'', JObject [(''score'', JNumber (- 100))]),
         (''longTerm'', JObject [(''score'', JNumber 100)])]), candidates = None\<rparr>)
     = Inr (JObject
        [(''historical'', JObject [(''score'', JNumber 40)]),
         (''current'', JObject [(''score'', JNumber (- 100))]),
         (''longTerm'', JObject [(''score'', JNumber 100)])])"
    by simp
  have h: "horizons_ok (spread (JObject
        [(''historical'', JObject [(''score'', JNumber 40)]),
         (''current'', JObject [(''score'', JNumber (- 100))]),
         (''longTerm'', JObject [(''score'', JNumber 100)])]))"
    by (simp add: horizons_ok_def timeline_ok_def)
  show ?thesis
    using p h stored_result_horizons [OF p, of "''Wheat''" India True initial_state]
    by blast
qed

text \<open>
  C8, as stated, fails: a response with an empty text is stored as an object with no
  time-horizon sub-record at all, and a response whose historical score is 250 is stored
  with that score.
\<close>

theorem stored_result_unchecked:
  "sentimentData (run (fetchSentiment ''Wheat'' India True (Inr \<lparr>resp_text = TextAbsent, candidates = None\<rparr>))
      initial_state) (entity_key ''Wheat'' India) = Some \<lparr>members = [], sources = []\<rparr>
   \<and> \<not> horizons_ok (members \<lparr>members = [], sources = []\<rparr>)
   \<and> sentimentData (run (fetchSentiment ''Wheat'' India True (Inr \<lparr>resp_text = TextJSON (JObject
        [(''historical'', JObject [(''score'', JNumber 250)]),
         (''current'', JObject [(''score'', JNumber 0)]),
         (''longTerm'', JObject [(''score'', JNumber 0)])]), candidates = None\<rparr>))
      initial_state) (entity_key ''Wheat'' India)
     = Some \<lparr>members = [(''historical'', JObject [(''score'', JNumber 250)]),
         (''current'', JObject [(''score'', JNumber 0)]),
         (''longTerm'', JObject [(''score'', JNumber 0)])], sources = []\<rparr>
   \<and> \<not> horizons_ok [(''historical'', JObject [(''score'', JNumber 250)]),
         (''current'', JObject [(''score'', JNumber 0)]),
         (''longTerm'', JObject [(''score'', JNumber 0)])]"
  by (simp add: fetchSentiment_def fetch_before_def fetch_after_def getCommoditySentiment_def
      extract_sources_def horizons_ok_def timeline_ok_def)

section \<open>The component, step by step\<close>

subsection \<open>What each step does to the state cells\<close>

lemma length_COMMODITIES: "length COMMODITIES = 5"
  by (simp add: COMMODITIES_def)

lemma fetch_before_frame:
  "sentimentData (run (fetch_before p) a) = sentimentData a"
  "refreshIndex (run (fetch_before p) a) = refreshIndex a"
  "cur_context (run (fetch_before p) a) = cur_context a"
  "selectedCommodity (run (fetch_before p) a) = selectedCommodity a"
  "expandedDriver (run (fetch_before p) a) = expandedDriver a"
  by (simp_all add: fetch_before_def)

lemma fetch_after_frame:
  "refreshIndex (run (fetch_after commodity c p settled) a) = refreshIndex a"
  "cur_context (run (fetch_after commodity c p settled) a) = cur_context a"
  "selectedCommodity (run (fetch_after commodity c p settled) a) = selectedCommodity a"
  "expandedDriver (run (fetch_after commodity c p settled) a) = expandedDriver a"
  by (simp_all add: fetch_after_def split: sum.splits)

lemma sentimentData_fetch_after:
  "sentimentData (run (fetch_after commodity c p settled) a) =
     (case settled of Inl err \<Rightarrow> sentimentData a
      | Inr data \<Rightarrow> (sentimentData a)(entity_key commodity c \<mapsto> data))"
  by (simp add: fetch_after_def split: sum.splits)

lemma set_state_simps:
  "app (set_state effects s) = map_option (run effects) (app s)"
  "inflight (set_state effects s) = inflight s"
  "issued (set_state effects s) = issued s"
  by (simp_all add: set_state_def)

lemma render_simps:
  "inflight (render other s) = inflight s"
  "issued (render other s) = issued s"
  by (simp_all add: render_def split: option.splits)

lemma app_render:
  "app (render other s) = Some a \<longleftrightarrow> app s = Some a \<and> \<not> render_throws other a"
  by (auto simp add: render_def split: option.splits)

lemma render_unmounted: "app s = None \<Longrightarrow> render other s = s"
  by (simp add: render_def)

lemma render_cases: "render other s = s \<or> (render other s = s\<lparr>app := None\<rparr> \<and> app s \<noteq> None)"
  by (auto simp add: render_def split: option.splits)

lemma issue_simps:
  "app (issue commodity c p rest s) = map_option (run (fetch_before p)) (app s)"
  "inflight (issue commodity c p rest s) = inflight s @
     [\<lparr>req_commodity = commodity, req_ctx = c, req_isPrefetch = p, req_rest = rest\<rparr>]"
  "issued (issue commodity c p rest s) = issued s @ [(commodity, c, p)]"
  by (simp_all add: issue_def set_state_simps)

lemma initialFetch_simps:
  "app (initialFetch cs c s) = (if cs = [] then app s else map_option (run (fetch_before True)) (app s))"
  "inflight (initialFetch cs c s) = inflight s @
     (case cs of [] \<Rightarrow> []
      | x # rest \<Rightarrow> [\<lparr>req_commodity = x, req_ctx = c, req_isPrefetch = True, req_rest = rest\<rparr>])"
  "issued (initialFetch cs c s) = issued s @ (case cs of [] \<Rightarrow> [] | x # rest \<Rightarrow> [(x, c, True)])"
  by (cases cs; simp add: issue_simps)+

lemma settle_simps:
  assumes "i < length (inflight s)"
  shows "app (settle i generated s) =
      map_option
        (\<lambda>a. (if req_rest (inflight s ! i) = [] then (\<lambda>x. x) else run (fetch_before True))
           (run (fetch_after (req_commodity (inflight s ! i)) (req_ctx (inflight s ! i))
                 (req_isPrefetch (inflight s ! i))
                 (getCommoditySentiment (req_commodity (inflight s ! i)) (req_ctx (inflight s ! i)) generated)) a))
        (app s)"
    and "inflight (settle i generated s) = take i (inflight s) @ drop (Suc i) (inflight s) @
      (case req_rest (inflight s ! i) of [] \<Rightarrow> []
       | x # rest \<Rightarrow> [\<lparr>req_commodity = x, req_ctx = req_ctx (inflight s ! i), req_isPrefetch = True, req_rest = rest\<rparr>])"
    and "issued (settle i generated s) = issued s @
      (case req_rest (inflight s ! i) of [] \<Rightarrow> [] | x # rest \<Rightarrow> [(x, req_ctx (inflight s ! i), True)])"
  using assms
  by (simp_all add: settle_def Let_def initialFetch_simps set_state_simps option.map_comp comp_def
      split: list.splits)

lemma settle_out_of_range: "\<not> i < length (inflight s) \<Longrightarrow> settle i generated s = s"
  by (simp add: settle_def)

text \<open>An unmounted component stays unmounted.\<close>

lemma step_unmounted: "app s = None \<Longrightarrow> app (step other e s) = None"
  by (cases e)
     (auto simp add: setContext_def tick_def handleCommodityClick_def backToDashboard_def retry_def
        toggleDriver_def render_def set_state_simps settle_def Let_def initialFetch_simps
        split: option.splits)

lemma COMMODITIES_not_Nil: "COMMODITIES \<noteq> []"
  by (simp add: COMMODITIES_def)

lemma app_setContext:
  assumes "app s = Some a" and "app (setContext other c s) = Some a'"
  shows "a' = a \<and> c = cur_context a
         \<or> a' = run (fetch_before True) (a\<lparr>cur_context := c\<rparr>) \<and> c \<noteq> cur_context a
            \<and> \<not> render_throws other (a\<lparr>cur_context := c\<rparr>)"
  using assms
  by (auto simp add: setContext_def Let_def app_render set_state_simps initialFetch_simps
      COMMODITIES_not_Nil render_def split: option.splits if_splits)

lemma app_step_tick:
  assumes "app s = Some a" and "app (step other EvTick s) = Some a'"
  shows "a' = run (fetch_before True) (a\<lparr>refreshIndex := (refreshIndex a + 1) mod length COMMODITIES\<rparr>)"
  using assms by (simp add: app_render tick_def Let_def issue_simps set_state_simps)

lemma app_step_click:
  assumes "app s = Some a" and "app (step other (EvClick commodity) s) = Some a'"
  shows "a' = (if sentimentData a (entity_key commodity (cur_context a)) = None
               then run (fetch_before False) else (\<lambda>x. x))
              (a\<lparr>selectedCommodity := Some commodity, expandedDriver := None\<rparr>)"
  using assms
  by (auto simp add: app_render handleCommodityClick_def Let_def issue_simps set_state_simps
      split: if_splits)

lemma app_step_back:
  assumes "app s = Some a" and "app (step other EvBack s) = Some a'"
  shows "a' = a\<lparr>selectedCommodity := None\<rparr>"
  using assms by (simp add: app_render backToDashboard_def set_state_simps)

lemma app_step_retry:
  assumes "app s = Some a" and "app (step other EvRetry s) = Some a'"
  shows "a' = a \<or> a' = run (fetch_before False) a"
  using assms
  by (auto simp add: app_render retry_def issue_simps split: panel.splits option.splits)

lemma app_step_toggle:
  assumes "app s = Some a" and "app (step other (EvToggleDriver idx) s) = Some a'"
  shows "a' = a\<lparr>expandedDriver := (if expandedDriver a = Some idx then None else Some idx)\<rparr>"
  using assms by (simp add: app_render toggleDriver_def set_state_simps)

lemma app_step_settle:
  assumes "app s = Some a" and "app (step other (EvSettle i generated) s) = Some a'"
    and "i < length (inflight s)"
  shows "a' = (if req_rest (inflight s ! i) = [] then (\<lambda>x. x) else run (fetch_before True))
           (run (fetch_after (req_commodity (inflight s ! i)) (req_ctx (inflight s ! i))
                 (req_isPrefetch (inflight s ! i))
                 (getCommoditySentiment (req_commodity (inflight s ! i)) (req_ctx (inflight s ! i)) generated)) a)"
  using assms by (simp add: app_render settle_simps)

lemma app_step_settle_out:
  assumes "app s = Some a" and "app (step other (EvSettle i generated) s) = Some a'"
    and "\<not> i < length (inflight s)"
  shows "a' = a"
  using assms by (simp add: app_render settle_out_of_range)

lemma sentimentData_step_other:
  assumes "app s = Some a" and "app (step other e s) = Some a'"
    and "\<forall>i generated. e \<noteq> EvSettle i generated"
  shows "sentimentData a' = sentimentData a"
proof (cases e)
  case (EvSetContext c)
  then show ?thesis
    using app_setContext [OF assms(1), of other c a'] assms(2) by (auto simp add: fetch_before_frame)
next
  case EvTick
  then show ?thesis
    using app_step_tick [OF assms(1), of other a'] assms(2) by (simp add: fetch_before_frame)
next
  case (EvClick commodity)
  then show ?thesis
    using app_step_click [OF assms(1), of other commodity a'] assms(2)
    by (simp add: fetch_before_frame split: if_splits)
next
  case EvBack
  then show ?thesis
    using app_step_back [OF assms(1), of other a'] assms(2) by simp
next
  case EvRetry
  then show ?thesis
    using app_step_retry [OF assms(1), of other a'] assms(2) by (auto simp add: fetch_before_frame)
next
  case (EvToggleDriver idx)
  then show ?thesis
    using app_step_toggle [OF assms(1), of other idx a'] assms(2) by simp
next
  case (EvSettle i generated)
  then show ?thesis using assms(3) by simp
qed

lemma sentimentData_step_settle:
  assumes "app s = Some a" and "app (step other (EvSettle i generated) s) = Some a'"
  shows "sentimentData a' =
     (if i < length (inflight s) then
        (case getCommoditySentiment (req_commodity (inflight s ! i)) (req_ctx (inflight s ! i)) generated of
           Inl err \<Rightarrow> sentimentData a
         | Inr data \<Rightarrow> (sentimentData a)
             (entity_key (req_commodity (inflight s ! i)) (req_ctx (inflight s ! i)) \<mapsto> data))
      else sentimentData a)"
proof (cases "i < length (inflight s)")
  case True
  show ?thesis
    unfolding app_step_settle [OF assms True]
    using True by (simp add: fetch_before_frame sentimentData_fetch_after)
next
  case False
  show ?thesis
    unfolding app_step_settle_out [OF assms False] using False by simp
qed

lemma refreshIndex_step_other:
  assumes "app s = Some a" and "app (step other e s) = Some a'" and "e \<noteq> EvTick"
  shows "refreshIndex a' = refreshIndex a"
proof (cases e)
  case (EvSetContext c)
  then show ?thesis
    using app_setContext [OF assms(1), of other c a'] assms(2) by (auto simp add: fetch_before_frame)
next
  case EvTick
  then show ?thesis using assms(3) by simp
next
  case (EvClick commodity)
  then show ?thesis
    using app_step_click [OF assms(1), of other commodity a'] assms(2)
    by (simp add: fetch_before_frame split: if_splits)
next
  case EvBack
  then show ?thesis
    using app_step_back [OF assms(1), of other a'] assms(2) by simp
next
  case EvRetry
  then show ?thesis
    using app_step_retry [OF assms(1), of other a'] assms(2) by (auto simp add: fetch_before_frame)
next
  case (EvToggleDriver idx)
  then show ?thesis
    using app_step_toggle [OF assms(1), of other idx a'] assms(2) by simp
next
  case (EvSettle i generated)
  note st = assms(2) [unfolded EvSettle]
  show ?thesis
  proof (cases "i < length (inflight s)")
    case True
    show ?thesis
      unfolding app_step_settle [OF assms(1) st True]
      by (simp add: fetch_before_frame fetch_after_frame)
  next
    case False
    show ?thesis
      unfolding app_step_settle_out [OF assms(1) st False] by simp
  qed
qed

lemma exec_Nil [simp]: "exec other [] s = s"
  by (simp add: exec_def)

lemma exec_Cons [simp]: "exec other (e # es) s = exec other es (step other e s)"
  by (simp add: exec_def)

lemma exec_unmounted: "app s = None \<Longrightarrow> app (exec other es s) = None"
  by (induction es arbitrary: s) (simp_all add: step_unmounted)

lemma step_mounted_before:
  assumes "app (step other e s) = Some a'"
  obtains a where "app s = Some a"
  using assms step_unmounted [of s other e] by (cases "app s") simp_all

lemma render_mounted: "app (render other s) \<noteq> None \<Longrightarrow> render other s = s"
  using render_cases [of other s] by auto

text \<open>
  A dispatch that is issued and settles with no other step in between has the effects of
  \<open>fetchSentiment\<close>, in their order.
\<close>

lemma dispatch_uninterrupted:
  "app (settle (length (inflight s)) generated (issue commodity c p [] s))
     = map_option (run (fetchSentiment commodity c p generated)) (app s)"
  by (cases "app s")
     (simp_all add: settle_def Let_def issue_simps set_state_simps fetchSentiment_def)

text \<open>The definitions that evaluating a run unfolds.\<close>

lemmas eval_defs = mount_def setContext_def tick_def handleCommodityClick_def backToDashboard_def
  retry_def toggleDriver_def settle_def render_def render_throws_def view_throws_def
  ticker_throws_def details_throw_def main_panel_def currentData_def no_other_throw_def
  COMMODITIES_def entity_key_def issue_def set_state_def Let_def fetch_before_def fetch_after_def
  getCommoditySentiment_def extract_sources_def initial_state_def cache_entry_def

subsection \<open>Background refresh\<close>

lemma refreshIndex_reachable:
  "reachable other s \<Longrightarrow> app s = Some a \<Longrightarrow> refreshIndex a < length COMMODITIES"
proof (induction arbitrary: a rule: reachable.induct)
  case reachable_mount
  then show ?case
    by (auto simp add: mount_def initialFetch_simps initial_state_def fetch_before_frame length_COMMODITIES
        COMMODITIES_not_Nil)
next
  case (reachable_step s e)
  from reachable_step.prems obtain b where b: "app s = Some b"
    by (rule step_mounted_before)
  show ?case
  proof (cases "e = EvTick")
    case True
    show ?thesis
      unfolding app_step_tick [OF b reachable_step.prems [unfolded True]]
      by (simp add: fetch_before_frame length_COMMODITIES)
  next
    case False
    show ?thesis
      using refreshIndex_step_other [OF b reachable_step.prems False] reachable_step.IH [OF b]
      by simp
  qed
qed

lemma tick_simps:
  assumes "app s = Some a"
  shows "app (tick s) = Some (run (fetch_before True)
            (a\<lparr>refreshIndex := (refreshIndex a + 1) mod length COMMODITIES\<rparr>))"
    and "issued (tick s) = issued s @
      [(COMMODITIES ! ((refreshIndex a + 1) mod length COMMODITIES), cur_context a, True)]"
    and "inflight (tick s) = inflight s @
      [\<lparr>req_commodity = COMMODITIES ! ((refreshIndex a + 1) mod length COMMODITIES),
        req_ctx = cur_context a, req_isPrefetch = True, req_rest = []\<rparr>]"
  using assms by (simp_all add: tick_def Let_def issue_simps set_state_simps)

lemma ticks_state:
  assumes "app s = Some a" and "refreshIndex a < length COMMODITIES"
  shows "\<exists>b. app ((tick ^^ n) s) = Some b
           \<and> refreshIndex b = (refreshIndex a + n) mod length COMMODITIES
           \<and> cur_context b = cur_context a"
proof (induction n)
  case 0
  show ?case using assms by simp
next
  case (Suc n)
  then obtain b where b: "app ((tick ^^ n) s) = Some b"
      "refreshIndex b = (refreshIndex a + n) mod length COMMODITIES" "cur_context b = cur_context a"
    by blast
  show ?case
    using b(2,3) by (simp add: tick_simps(1) [OF b(1)] fetch_before_frame mod_Suc_eq)
qed

lemma ticks_issued:
  assumes "app s = Some a" and "refreshIndex a < length COMMODITIES"
  shows "issued ((tick ^^ n) s) = issued s @
     map (\<lambda>j. (COMMODITIES ! ((refreshIndex a + 1 + j) mod length COMMODITIES), cur_context a, True)) [0..<n]"
proof (induction n)
  case 0
  show ?case by simp
next
  case (Suc n)
  obtain b where b: "app ((tick ^^ n) s) = Some b"
      "refreshIndex b = (refreshIndex a + n) mod length COMMODITIES" "cur_context b = cur_context a"
    using ticks_state [OF assms, of n] by blast
  have "(refreshIndex b + 1) mod length COMMODITIES = (refreshIndex a + 1 + n) mod length COMMODITIES"
    unfolding b(2) by (simp add: mod_Suc_eq)
  then show ?case
    using Suc.IH b(3) by (simp add: tick_simps(2) [OF b(1)])
qed

lemma steps_are_ticks:
  "app ((step other EvTick ^^ n) s) \<noteq> None \<Longrightarrow> (step other EvTick ^^ n) s = (tick ^^ n) s"
proof (induction n)
  case 0
  show ?case by simp
next
  case (Suc n)
  have u: "(step other EvTick ^^ Suc n) s = step other EvTick ((step other EvTick ^^ n) s)"
    by (simp del: step.simps)
  have m: "app ((step other EvTick ^^ n) s) \<noteq> None"
  proof
    assume "app ((step other EvTick ^^ n) s) = None"
    then have "app (step other EvTick ((step other EvTick ^^ n) s)) = None"
      by (rule step_unmounted)
    with Suc.prems show False
      unfolding u by simp
  qed
  have e: "(step other EvTick ^^ Suc n) s = render other (tick ((tick ^^ n) s))"
    unfolding u Suc.IH [OF m] by simp
  have "app (render other (tick ((tick ^^ n) s))) \<noteq> None"
    using Suc.prems unfolding e .
  then have "render other (tick ((tick ^^ n) s)) = tick ((tick ^^ n) s)"
    by (rule render_mounted)
  then show ?case
    unfolding e by simp
qed

lemma view_empty_cache: "sentimentData a = Map.empty \<Longrightarrow> \<not> view_throws a"
  by (simp add: view_throws_def ticker_throws_def list_ex_iff main_panel_def currentData_def
      split: option.splits list.splits)

lemma ticks_empty_cache:
  assumes "app s = Some a" and "sentimentData a = Map.empty"
  shows "\<exists>b. app ((step no_other_throw EvTick ^^ n) s) = Some b \<and> sentimentData b = Map.empty"
proof (induction n)
  case 0
  show ?case using assms by simp
next
  case (Suc n)
  then obtain b where b: "app ((step no_other_throw EvTick ^^ n) s) = Some b" "sentimentData b = Map.empty"
    by blast
  let ?b = "run (fetch_before True) (b\<lparr>refreshIndex := (refreshIndex b + 1) mod length COMMODITIES\<rparr>)"
  have c: "sentimentData ?b = Map.empty"
    using b(2) by (simp add: fetch_before_frame)
  have "(step no_other_throw EvTick ^^ Suc n) s = render no_other_throw (tick ((step no_other_throw EvTick ^^ n) s))"
    by simp
  moreover have "app (render no_other_throw (tick ((step no_other_throw EvTick ^^ n) s))) = Some ?b"
    using view_empty_cache [OF c]
    by (simp only: app_render tick_simps(1) [OF b(1)] render_throws_def no_other_throw_def) simp
  ultimately show ?case
    using c by (simp del: funpow.simps step.simps)
qed

lemma rotate_nths:
  "map (\<lambda>j. xs ! ((m + j) mod length xs)) [0..<length xs] = rotate m xs"
  by (rule nth_equalityI) (simp_all add: nth_rotate)

lemma mset_rotate_eq: "mset (rotate m xs) = mset xs"
proof -
  have "mset (take k xs) + mset (drop k xs) = mset xs" for k
    unfolding mset_append [symmetric] by simp
  then show ?thesis
    by (simp add: rotate_drop_take add.commute)
qed

text \<open>
  C4. In every reachable state in which the component is mounted the cursor
  \<^verbatim>\<open>refreshIndex\<close> is below the number of subjects. A tick moves it to its successor modulo
  that number and calls \<^verbatim>\<open>fetchSentiment\<close> with \<^verbatim>\<open>isPrefetch = true\<close> for the subject at
  the new cursor, under the current context (the call is made even when the render after
  the tick throws); no other step moves the cursor. When the component is still mounted
  after as many consecutive ticks as there are subjects, the dispatches of these ticks
  are all prefetch dispatches, and their subjects are the tracked subjects, each exactly
  once (the subjects are distinct).
\<close>

theorem refresh_cursor_round_robin:
  assumes "reachable other s" and "app s = Some a"
  shows "refreshIndex a < length COMMODITIES
     \<and> (\<forall>a'. app (step other EvTick s) = Some a' \<longrightarrow>
           refreshIndex a' = (refreshIndex a + 1) mod length COMMODITIES)
     \<and> issued (step other EvTick s) = issued s @
          [(COMMODITIES ! ((refreshIndex a + 1) mod length COMMODITIES), cur_context a, True)]
     \<and> (\<forall>e a'. e \<noteq> EvTick \<and> app (step other e s) = Some a' \<longrightarrow> refreshIndex a' = refreshIndex a)
     \<and> (app ((step other EvTick ^^ length COMMODITIES) s) \<noteq> None \<longrightarrow>
           length (issued ((step other EvTick ^^ length COMMODITIES) s))
             = length (issued s) + length COMMODITIES
           \<and> map snd (drop (length (issued s)) (issued ((step other EvTick ^^ length COMMODITIES) s)))
               = replicate (length COMMODITIES) (cur_context a, True)
           \<and> mset (map fst (drop (length (issued s)) (issued ((step other EvTick ^^ length COMMODITIES) s))))
               = mset COMMODITIES)
     \<and> distinct COMMODITIES"
proof -
  have r: "refreshIndex a < length COMMODITIES"
    using assms by (rule refreshIndex_reachable)
  have t: "\<forall>a'. app (step other EvTick s) = Some a' \<longrightarrow>
           refreshIndex a' = (refreshIndex a + 1) mod length COMMODITIES"
    using app_step_tick [OF assms(2), of other] by (auto simp add: fetch_before_frame)
  have i: "issued (step other EvTick s) = issued s @
          [(COMMODITIES ! ((refreshIndex a + 1) mod length COMMODITIES), cur_context a, True)]"
    by (simp add: render_simps tick_simps(2) [OF assms(2)])
  have o: "\<forall>e a'. e \<noteq> EvTick \<and> app (step other e s) = Some a' \<longrightarrow> refreshIndex a' = refreshIndex a"
    using refreshIndex_step_other [OF assms(2), of other] by blast
  have "map fst (drop (length (issued s)) (issued ((tick ^^ length COMMODITIES) s)))
      = map (\<lambda>j. COMMODITIES ! ((refreshIndex a + 1 + j) mod length COMMODITIES)) [0..<length COMMODITIES]"
    by (simp add: ticks_issued [OF assms(2) r] comp_def)
  also have "\<dots> = rotate (refreshIndex a + 1) COMMODITIES"
    by (rule rotate_nths)
  finally have "mset (map fst (drop (length (issued s)) (issued ((tick ^^ length COMMODITIES) s))))
      = mset (rotate (refreshIndex a + 1) COMMODITIES)"
    by (rule arg_cong)
  then have f: "mset (map fst (drop (length (issued s)) (issued ((tick ^^ length COMMODITIES) s))))
      = mset COMMODITIES"
    by (simp only: mset_rotate_eq)
  have g: "map snd (drop (length (issued s)) (issued ((tick ^^ length COMMODITIES) s)))
      = replicate (length COMMODITIES) (cur_context a, True)"
    by (simp add: ticks_issued [OF assms(2) r] comp_def map_replicate_const)
  have l: "length (issued ((tick ^^ length COMMODITIES) s)) = length (issued s) + length COMMODITIES"
    by (simp add: ticks_issued [OF assms(2) r])
  have d: "distinct COMMODITIES"
    by (simp add: COMMODITIES_def)
  have n: "app ((step other EvTick ^^ length COMMODITIES) s) \<noteq> None \<longrightarrow>
           length (issued ((step other EvTick ^^ length COMMODITIES) s))
             = length (issued s) + length COMMODITIES
           \<and> map snd (drop (length (issued s)) (issued ((step other EvTick ^^ length COMMODITIES) s)))
               = replicate (length COMMODITIES) (cur_context a, True)
           \<and> mset (map fst (drop (length (issued s)) (issued ((step other EvTick ^^ length COMMODITIES) s))))
               = mset COMMODITIES"
  proof
    assume "app ((step other EvTick ^^ length COMMODITIES) s) \<noteq> None"
    then have "(step other EvTick ^^ length COMMODITIES) s = (tick ^^ length COMMODITIES) s"
      by (rule steps_are_ticks)
    then show "length (issued ((step other EvTick ^^ length COMMODITIES) s))
             = length (issued s) + length COMMODITIES
           \<and> map snd (drop (length (issued s)) (issued ((step other EvTick ^^ length COMMODITIES) s)))
               = replicate (length COMMODITIES) (cur_context a, True)
           \<and> mset (map fst (drop (length (issued s)) (issued ((step other EvTick ^^ length COMMODITIES) s))))
               = mset COMMODITIES"
      using f g l by (simp only:)
  qed
  show ?thesis
    using r t i o n d by blast
qed

theorem refresh_cursor_round_robin_witness:
  "reachable no_other_throw (step no_other_throw EvTick mount)
   \<and> map_option refreshIndex (app (step no_other_throw EvTick mount)) = Some 1
   \<and> map_option refreshIndex (app (step no_other_throw EvTick (step no_other_throw EvTick mount))) = Some 2
   \<and> issued (step no_other_throw EvTick (step no_other_throw EvTick mount))
       = issued (step no_other_throw EvTick mount) @ [(''Maize'', India, True)]
   \<and> app ((step no_other_throw EvTick ^^ length COMMODITIES) (step no_other_throw EvTick mount)) \<noteq> None
   \<and> mset (map fst (drop (length (issued (step no_other_throw EvTick mount)))
        (issued ((step no_other_throw EvTick ^^ length COMMODITIES) (step no_other_throw EvTick mount)))))
       = mset COMMODITIES"
proof -
  let ?s = "step no_other_throw EvTick mount"
  have r: "reachable no_other_throw ?s"
    by (rule reachable_step [OF reachable_mount])
  obtain a where a: "app ?s = Some a" "refreshIndex a = 1" "cur_context a = India"
      "sentimentData a = Map.empty"
    by (simp add: eval_defs)
  have m: "app ((step no_other_throw EvTick ^^ length COMMODITIES) ?s) \<noteq> None"
    using ticks_empty_cache [OF a(1,4), of "length COMMODITIES"] by auto
  have c: "COMMODITIES ! Suc (Suc 0) = ''Maize''"
    by (simp add: COMMODITIES_def)
  have "map_option refreshIndex (app (step no_other_throw EvTick ?s)) = Some 2"
    by (simp add: eval_defs)
  then show ?thesis
    using r a m c refresh_cursor_round_robin [OF r a(1)]
    by (simp add: length_COMMODITIES)
qed

subsection \<open>The cache\<close>

lemma cache_entry_kept_step:
  assumes "app s = Some a" and "app (step other e s) = Some a'" and "sentimentData a k \<noteq> None"
  shows "sentimentData a' k \<noteq> None"
proof (cases "\<exists>i generated. e = EvSettle i generated")
  case True
  then obtain i generated where e: "e = EvSettle i generated"
    by blast
  show ?thesis
    using assms(3) unfolding sentimentData_step_settle [OF assms(1) assms(2) [unfolded e]]
    by (auto split: sum.splits)
next
  case False
  then show ?thesis
    using assms(3) sentimentData_step_other [OF assms(1,2)] by simp
qed

lemma cache_entry_kept_exec:
  assumes "app s = Some a" and "app (exec other es s) = Some a'" and "sentimentData a k \<noteq> None"
  shows "sentimentData a' k \<noteq> None"
  using assms
proof (induction es arbitrary: s a)
  case Nil
  then show ?case by simp
next
  case (Cons e es)
  show ?case
  proof (cases "app (step other e s)")
    case None
    then have "app (exec other (e # es) s) = None"
      by (simp add: exec_unmounted)
    with Cons.prems(2) show ?thesis by simp
  next
    case (Some b)
    have "sentimentData b k \<noteq> None"
      using Cons.prems(1) Some Cons.prems(3) by (rule cache_entry_kept_step)
    moreover have "app (exec other es (step other e s)) = Some a'"
      using Cons.prems(2) by simp
    ultimately show ?thesis
      using Cons.IH [OF Some] by blast
  qed
qed

lemma cache_entry_changed_step:
  assumes "app s = Some a" and "app (step other e s) = Some a'"
    and "sentimentData a' k \<noteq> sentimentData a k"
  shows "\<exists>i generated data. e = EvSettle i generated \<and> i < length (inflight s)
           \<and> k = entity_key (req_commodity (inflight s ! i)) (req_ctx (inflight s ! i))
           \<and> getCommoditySentiment (req_commodity (inflight s ! i)) (req_ctx (inflight s ! i)) generated = Inr data
           \<and> sentimentData a' k = Some data"
proof (cases "\<exists>i generated. e = EvSettle i generated")
  case True
  then obtain i generated where e: "e = EvSettle i generated"
    by blast
  show ?thesis
    using assms(3) unfolding e sentimentData_step_settle [OF assms(1) assms(2) [unfolded e]]
    by (auto split: sum.splits if_splits)
next
  case False
  then show ?thesis
    using assms(3) sentimentData_step_other [OF assms(1,2)] by simp
qed




subsection \<open>Selection\<close>

text \<open>
  C6, as the code has it. \<^verbatim>\<open>handleCommodityClick\<close> sets the selection to the subject and
  the expanded driver to null. When the cache has no entry for the subject under the
  current context it calls \<^verbatim>\<open>fetchSentiment\<close> once, in the foreground, so the in-flight
  flag is true and the error is cleared. When there is an entry it calls nothing and
  leaves the in-flight flag and the error as they are; \<^verbatim>\<open>currentData\<close> is that entry, and
  the view shows the report on it exactly when nothing is loading and no error is set.
  The render that follows the handler decides whether the component stays mounted.
\<close>

theorem handleCommodityClick_selects:
  assumes "app s = Some a"
  shows "\<exists>a'. app (handleCommodityClick commodity s) = Some a'
     \<and> selectedCommodity a' = Some commodity
     \<and> expandedDriver a' = None
     \<and> (sentimentData a (entity_key commodity (cur_context a)) = None \<longrightarrow>
          issued (handleCommodityClick commodity s) = issued s @ [(commodity, cur_context a, False)]
          \<and> inflight (handleCommodityClick commodity s) = inflight s @
               [\<lparr>req_commodity = commodity, req_ctx = cur_context a, req_isPrefetch = False, req_rest = []\<rparr>]
          \<and> loading a' = True
          \<and> error a' = None)
     \<and> (\<forall>d. sentimentData a (entity_key commodity (cur_context a)) = Some d \<longrightarrow>
          issued (handleCommodityClick commodity s) = issued s
          \<and> inflight (handleCommodityClick commodity s) = inflight s
          \<and> loading a' = loading a
          \<and> error a' = error a
          \<and> (commodity \<noteq> [] \<longrightarrow>
               currentData a' = Some d
               \<and> (main_panel a' = Details d \<longleftrightarrow>
                    \<not> loading a \<and> (error a = None \<or> error a = Some []))))
     \<and> issued (step other (EvClick commodity) s) = issued (handleCommodityClick commodity s)
     \<and> app (step other (EvClick commodity) s) = (if render_throws other a' then None else Some a')"
proof (cases "sentimentData a (entity_key commodity (cur_context a))")
  case None
  let ?a = "run (fetch_before False) (a\<lparr>selectedCommodity := Some commodity, expandedDriver := None\<rparr>)"
  have h: "app (handleCommodityClick commodity s) = Some ?a"
    using assms None by (simp add: handleCommodityClick_def Let_def issue_simps set_state_simps)
  have "selectedCommodity ?a = Some commodity \<and> expandedDriver ?a = None \<and> loading ?a = True
      \<and> error ?a = None"
    by (simp add: fetch_before_def)
  moreover have "issued (handleCommodityClick commodity s) = issued s @ [(commodity, cur_context a, False)]
      \<and> inflight (handleCommodityClick commodity s) = inflight s @
           [\<lparr>req_commodity = commodity, req_ctx = cur_context a, req_isPrefetch = False, req_rest = []\<rparr>]"
    using assms None by (simp add: handleCommodityClick_def Let_def issue_simps set_state_simps)
  moreover have "issued (step other (EvClick commodity) s) = issued (handleCommodityClick commodity s)"
    by (simp add: render_simps)
  moreover have "app (step other (EvClick commodity) s) = (if render_throws other ?a then None else Some ?a)"
    using h by (simp add: render_def)
  ultimately show ?thesis
    using h None by (intro exI [of _ ?a]) simp
next
  case (Some d)
  let ?a = "a\<lparr>selectedCommodity := Some commodity, expandedDriver := None\<rparr>"
  have h: "app (handleCommodityClick commodity s) = Some ?a"
    using assms Some by (simp add: handleCommodityClick_def Let_def set_state_simps)
  have "issued (handleCommodityClick commodity s) = issued s
      \<and> inflight (handleCommodityClick commodity s) = inflight s"
    using assms Some by (simp add: handleCommodityClick_def Let_def set_state_simps)
  moreover have "commodity \<noteq> [] \<longrightarrow> currentData ?a = Some d
      \<and> (main_panel ?a = Details d \<longleftrightarrow> \<not> loading a \<and> (error a = None \<or> error a = Some []))"
    using Some by (auto simp add: currentData_def main_panel_def split: option.splits list.splits)
  moreover have "issued (step other (EvClick commodity) s) = issued (handleCommodityClick commodity s)"
    by (simp add: render_simps)
  moreover have "app (step other (EvClick commodity) s) = (if render_throws other ?a then None else Some ?a)"
    using h by (simp add: render_def)
  ultimately show ?thesis
    using h Some by (intro exI [of _ ?a]) simp
qed

theorem handleCommodityClick_selects_witness:
  "map_option (\<lambda>a. sentimentData a (entity_key ''Sugar'' (cur_context a))) (app mount) = Some None
   \<and> issued (step no_other_throw (EvClick ''Sugar'') mount)
       = [(''Wheat'', India, True), (''Sugar'', India, False)]
   \<and> map_option main_panel (app (step no_other_throw (EvClick ''Sugar'') mount)) = Some Spinner
   \<and> cache_entry (step no_other_throw (EvSettle 0 (Inr \<lparr>resp_text = TextJSON (JObject
          [(''historical'', JObject [(''score'', JNumber 40)]),
           (''current'', JObject [(''score'', JNumber 10)]),
           (''longTerm'', JObject [(''score'', JNumber 25)]),
           (''drivers'', JArray [])]), candidates = None\<rparr>)) mount) ''Wheat-India''
       = Some \<lparr>members = [(''historical'', JObject [(''score'', JNumber 40)]),
           (''current'', JObject [(''score'', JNumber 10)]),
           (''longTerm'', JObject [(''score'', JNumber 25)]),
           (''drivers'', JArray [])], sources = []\<rparr>
   \<and> map_option main_panel (app (step no_other_throw (EvClick ''Wheat'')
        (step no_other_throw (EvSettle 0 (Inr \<lparr>resp_text = TextJSON (JObject
          [(''historical'', JObject [(''score'', JNumber 40)]),
           (''current'', JObject [(''score'', JNumber 10)]),
           (''longTerm'', JObject [(''score'', JNumber 25)]),
           (''drivers'', JArray [])]), candidates = None\<rparr>)) mount)))
       = Some (Details \<lparr>members = [(''historical'', JObject [(''score'', JNumber 40)]),
           (''current'', JObject [(''score'', JNumber 10)]),
           (''longTerm'', JObject [(''score'', JNumber 25)]),
           (''drivers'', JArray [])], sources = []\<rparr>)"
proof -
  have m: "app mount = Some initial_state"
    by (simp add: eval_defs)
  obtain a where a: "app (step no_other_throw (EvSettle 0 (Inr \<lparr>resp_text = TextJSON (JObject
          [(''historical'', JObject [(''score'', JNumber 40)]),
           (''current'', JObject [(''score'', JNumber 10)]),
           (''longTerm'', JObject [(''score'', JNumber 25)]),
           (''drivers'', JArray [])]), candidates = None\<rparr>)) mount) = Some a"
    by (simp add: eval_defs)
  have e: "map_option (\<lambda>a. sentimentData a (entity_key ''Sugar'' (cur_context a))) (app mount) = Some None
   \<and> issued (step no_other_throw (EvClick ''Sugar'') mount)
       = [(''Wheat'', India, True), (''Sugar'', India, False)]
   \<and> map_option main_panel (app (step no_other_throw (EvClick ''Sugar'') mount)) = Some Spinner
   \<and> cache_entry (step no_other_throw (EvSettle 0 (Inr \<lparr>resp_text = TextJSON (JObject
          [(''historical'', JObject [(''score'', JNumber 40)]),
           (''current'', JObject [(''score'', JNumber 10)]),
           (''longTerm'', JObject [(''score'', JNumber 25)]),
           (''drivers'', JArray [])]), candidates = None\<rparr>)) mount) ''Wheat-India''
       = Some \<lparr>members = [(''historical'', JObject [(''score'', JNumber 40)]),
           (''current'', JObject [(''score'', JNumber 10)]),
           (''longTerm'', JObject [(''score'', JNumber 25)]),
           (''drivers'', JArray [])], sources = []\<rparr>
   \<and> map_option main_panel (app (step no_other_throw (EvClick ''Wheat'')
        (step no_other_throw (EvSettle 0 (Inr \<lparr>resp_text = TextJSON (JObject
          [(''historical'', JObject [(''score'', JNumber 40)]),
           (''current'', JObject [(''score'', JNumber 10)]),
           (''longTerm'', JObject [(''score'', JNumber 25)]),
           (''drivers'', JArray [])]), candidates = None\<rparr>)) mount)))
       = Some (Details \<lparr>members = [(''historical'', JObject [(''score'', JNumber 40)]),
           (''current'', JObject [(''score'', JNumber 10)]),
           (''longTerm'', JObject [(''score'', JNumber 25)]),
           (''drivers'', JArray [])], sources = []\<rparr>)"
    by (simp add: eval_defs)
  show ?thesis
    using handleCommodityClick_selects [OF m, of "''Sugar''" no_other_throw]
      handleCommodityClick_selects [OF a, of "''Wheat''" no_other_throw]
    by (simp only: e)
qed

text \<open>
  C6, as stated, fails in its last part. Wheat is cached; a foreground fetch for Sugar
  fails with a rate limit; the user goes back and selects Wheat: no dispatch is issued,
  the error of the Sugar fetch is still set, and the view shows the error panel instead
  of the cached report.
\<close>

theorem cached_subject_behind_error_panel:
  "cache_entry (exec no_other_throw
       [EvSettle 0 (Inr \<lparr>resp_text = TextJSON (JObject
          [(''historical'', JObject [(''score'', JNumber 40)]),
           (''current'', JObject [(''score'', JNumber 10)]),
           (''longTerm'', JObject [(''score'', JNumber 25)]),
           (''drivers'', JArray [])]), candidates = None\<rparr>),
        EvClick ''Sugar'', EvSettle 1 (Inl (JsError (Some ''got status: 429''))), EvBack] mount)
       ''Wheat-India''
     = Some \<lparr>members = [(''historical'', JObject [(''score'', JNumber 40)]),
           (''current'', JObject [(''score'', JNumber 10)]),
           (''longTerm'', JObject [(''score'', JNumber 25)]),
           (''drivers'', JArray [])], sources = []\<rparr>
   \<and> map_option main_panel (app (exec no_other_throw
       [EvSettle 0 (Inr \<lparr>resp_text = TextJSON (JObject
          [(''historical'', JObject [(''score'', JNumber 40)]),
           (''current'', JObject [(''score'', JNumber 10)]),
           (''longTerm'', JObject [(''score'', JNumber 25)]),
           (''drivers'', JArray [])]), candidates = None\<rparr>),
        EvClick ''Sugar'', EvSettle 1 (Inl (JsError (Some ''got status: 429''))), EvBack,
        EvClick ''Wheat''] mount))
     = Some (ErrorPanel ''Rate limit exceeded. Please wait.'')"
  by (simp add: eval_defs error_message_def message_includes_def)

subsection \<open>The prefetch driver\<close>

lemma inflight_step_other:
  assumes "\<forall>i generated. e \<noteq> EvSettle i generated"
  shows "\<exists>extra. inflight (step other e s) = inflight s @ extra"
  using assms
  by (cases e)
     (auto simp add: setContext_def tick_def handleCommodityClick_def backToDashboard_def retry_def
        toggleDriver_def render_simps set_state_simps issue_simps initialFetch_simps Let_def
        split: option.splits panel.splits list.splits)

lemma position_kept_other:
  assumes "\<forall>i generated. e \<noteq> EvSettle i generated" and "j < length (inflight s)"
  shows "j < length (inflight (step other e s)) \<and> inflight (step other e s) ! j = inflight s ! j"
proof -
  obtain extra where "inflight (step other e s) = inflight s @ extra"
    using inflight_step_other [OF assms(1)] by blast
  then show ?thesis
    using assms(2) by (simp add: nth_append)
qed

lemma inflight_step_settle:
  assumes "i < length (inflight s)"
  shows "inflight (step other (EvSettle i generated) s) = take i (inflight s) @ drop (Suc i) (inflight s) @
      (case req_rest (inflight s ! i) of [] \<Rightarrow> []
       | x # rest \<Rightarrow> [\<lparr>req_commodity = x, req_ctx = req_ctx (inflight s ! i), req_isPrefetch = True, req_rest = rest\<rparr>])"
    and "issued (step other (EvSettle i generated) s) = issued s @
      (case req_rest (inflight s ! i) of [] \<Rightarrow> [] | x # rest \<Rightarrow> [(x, req_ctx (inflight s ! i), True)])"
  using assms by (simp_all add: render_simps settle_simps)

lemma step_settle_out_of_range:
  "\<not> i < length (inflight s) \<Longrightarrow> inflight (step other (EvSettle i generated) s) = inflight s"
  by (simp add: render_simps settle_out_of_range)

lemma position_after_earlier:
  assumes "i < j" and "j < length (inflight s)"
  shows "j - 1 < length (inflight (step other (EvSettle i generated) s))
     \<and> inflight (step other (EvSettle i generated) s) ! (j - 1) = inflight s ! j"
proof -
  have i: "i < length (inflight s)"
    using assms by simp
  have "(take i (inflight s) @ drop (Suc i) (inflight s)) ! (j - 1) = inflight s ! j"
    using assms by (simp add: nth_append min_def)
  moreover have "j - 1 < length (take i (inflight s) @ drop (Suc i) (inflight s))"
    using assms by simp
  ultimately show ?thesis
    unfolding inflight_step_settle(1) [OF i] append_assoc [symmetric]
    by (simp only: nth_append length_append) simp
qed

lemma position_after_later:
  assumes "j < i" and "i < length (inflight s)"
  shows "j < length (inflight (step other (EvSettle i generated) s))
     \<and> inflight (step other (EvSettle i generated) s) ! j = inflight s ! j"
  unfolding inflight_step_settle(1) [OF assms(2)]
  using assms by (simp add: nth_append)

lemma position_after_own:
  assumes "j < length (inflight s)" and "req_rest (inflight s ! j) = y # rest'"
  shows "length (inflight s) - 1 < length (inflight (step other (EvSettle j generated) s))
     \<and> inflight (step other (EvSettle j generated) s) ! (length (inflight s) - 1)
         = \<lparr>req_commodity = y, req_ctx = req_ctx (inflight s ! j), req_isPrefetch = True, req_rest = rest'\<rparr>"
  unfolding inflight_step_settle(1) [OF assms(1)]
  using assms by (simp add: nth_append min_def)

lemma follow_other:
  "\<forall>i generated. e \<noteq> EvSettle i generated \<Longrightarrow>
     follow other j (e # es) s = follow other j es (step other e s)"
  by (cases e) simp_all

lemma follow_settle_own:
  assumes "j < length (inflight s)"
  shows "follow other j (EvSettle j generated # es) s =
     (if req_rest (inflight s ! j) = []
      then ([drop (length (issued s)) (issued (step other (EvSettle j generated) s))], None)
      else (case follow other (length (inflight s) - 1) es (step other (EvSettle j generated) s) of
              (ks, p) \<Rightarrow> (drop (length (issued s)) (issued (step other (EvSettle j generated) s)) # ks, p)))"
  using assms by (simp add: Let_def del: step.simps)

lemma follow_settle_else:
  assumes "i \<noteq> j \<or> \<not> i < length (inflight s)"
  shows "follow other j (EvSettle i generated # es) s =
     follow other (if i < length (inflight s) \<and> i < j then j - 1 else j) es
       (step other (EvSettle i generated) s)"
  using assms by (auto simp del: step.simps)

text \<open>
  A loop of \<open>initialFetch\<close> that awaits the dispatch at position \<open>j\<close>, for the subject \<open>x\<close>
  with the subjects \<open>rest\<close> still to come, followed through any run: each settling of its
  dispatch was followed by exactly one call, for the next subject of \<open>rest\<close>, and the loop
  awaits that dispatch; the settling of its last dispatch was followed by no call.
\<close>

lemma loop_followed:
  assumes "j < length (inflight s)"
    and "inflight s ! j = \<lparr>req_commodity = x, req_ctx = c, req_isPrefetch = True, req_rest = rest\<rparr>"
  shows "case follow other j es s of
           (ks, Some j') \<Rightarrow>
             length ks \<le> length rest
             \<and> ks = map (\<lambda>y. [(y, c, True)]) (take (length ks) rest)
             \<and> j' < length (inflight (exec other es s))
             \<and> inflight (exec other es s) ! j'
                 = \<lparr>req_commodity = (x # rest) ! length ks, req_ctx = c, req_isPrefetch = True,
                    req_rest = drop (length ks) rest\<rparr>
         | (ks, None) \<Rightarrow> ks = map (\<lambda>y. [(y, c, True)]) rest @ [[]]"
  using assms
proof (induction es arbitrary: s j x rest)
  case Nil
  then show ?case by simp
next
  case (Cons e es)
  show ?case
  proof (cases "\<exists>i generated. e = EvSettle i generated")
    case False
    then have n: "\<forall>i generated. e \<noteq> EvSettle i generated"
      by blast
    have p: "j < length (inflight (step other e s))"
      "inflight (step other e s) ! j
         = \<lparr>req_commodity = x, req_ctx = c, req_isPrefetch = True, req_rest = rest\<rparr>"
      using position_kept_other [OF n Cons.prems(1), of other] Cons.prems(2) by simp_all
    show ?thesis
      unfolding exec_Cons follow_other [OF n] by (rule Cons.IH [OF p])
  next
    case True
    then obtain i generated where e: "e = EvSettle i generated"
      by blast
    consider (out) "\<not> i < length (inflight s)" | (before) "i < j" | (after) "j < i" "i < length (inflight s)"
      | (own) "i = j"
      using Cons.prems(1) by linarith
    then show ?thesis
    proof cases
      case out
      have p: "j < length (inflight (step other e s))"
        "inflight (step other e s) ! j
           = \<lparr>req_commodity = x, req_ctx = c, req_isPrefetch = True, req_rest = rest\<rparr>"
        using Cons.prems out by (simp_all add: e step_settle_out_of_range del: step.simps)
      have "follow other j (e # es) s = follow other j es (step other e s)"
        unfolding e using out by (simp add: follow_settle_else del: step.simps follow.simps)
      then show ?thesis
        unfolding exec_Cons by (simp only: Cons.IH [OF p])
    next
      case before
      have p: "j - 1 < length (inflight (step other e s))"
        "inflight (step other e s) ! (j - 1)
           = \<lparr>req_commodity = x, req_ctx = c, req_isPrefetch = True, req_rest = rest\<rparr>"
        using position_after_earlier [OF before Cons.prems(1), of other generated] Cons.prems(2)
        by (simp_all add: e del: step.simps)
      have i: "i < length (inflight s)" "i \<noteq> j"
        using before Cons.prems(1) by simp_all
      have "follow other j (e # es) s = follow other (j - 1) es (step other e s)"
        unfolding e using before i by (simp add: follow_settle_else del: step.simps follow.simps)
      then show ?thesis
        unfolding exec_Cons by (simp only: Cons.IH [OF p])
    next
      case after
      have p: "j < length (inflight (step other e s))"
        "inflight (step other e s) ! j
           = \<lparr>req_commodity = x, req_ctx = c, req_isPrefetch = True, req_rest = rest\<rparr>"
        using position_after_later [OF after, of other generated] Cons.prems(2)
        by (simp_all add: e del: step.simps)
      have "follow other j (e # es) s = follow other j es (step other e s)"
        unfolding e using after by (simp add: follow_settle_else del: step.simps follow.simps)
      then show ?thesis
        unfolding exec_Cons by (simp only: Cons.IH [OF p])
    next
      case own
      have r: "req_rest (inflight s ! j) = rest" "req_ctx (inflight s ! j) = c"
        using Cons.prems(2) by simp_all
      have calls: "drop (length (issued s)) (issued (step other (EvSettle j generated) s))
          = (case rest of [] \<Rightarrow> [] | y # rest' \<Rightarrow> [(y, c, True)])"
        unfolding inflight_step_settle(2) [OF Cons.prems(1)] r by simp
      show ?thesis
      proof (cases rest)
        case Nil
        then show ?thesis
          using calls r
          by (simp add: e own follow_settle_own [OF Cons.prems(1)] del: step.simps follow.simps)
      next
        case (Cons y rest')
        have p: "length (inflight s) - 1 < length (inflight (step other e s))"
          "inflight (step other e s) ! (length (inflight s) - 1)
             = \<lparr>req_commodity = y, req_ctx = c, req_isPrefetch = True, req_rest = rest'\<rparr>"
          using position_after_own [OF Cons.prems(1), of y rest' other generated] r Cons
          by (simp_all add: e own del: step.simps)
        obtain ks q where f: "follow other (length (inflight s) - 1) es (step other e s) = (ks, q)"
          by (cases "follow other (length (inflight s) - 1) es (step other e s)")
        have g: "follow other j (e # es) s = ([(y, c, True)] # ks, q)"
          using calls r Cons f
          by (simp add: e own follow_settle_own [OF Cons.prems(1)] del: step.simps follow.simps)
        have h: "case (ks, q) of
           (ks, Some j') \<Rightarrow>
             length ks \<le> length rest'
             \<and> ks = map (\<lambda>y. [(y, c, True)]) (take (length ks) rest')
             \<and> j' < length (inflight (exec other es (step other e s)))
             \<and> inflight (exec other es (step other e s)) ! j'
                 = \<lparr>req_commodity = (y # rest') ! length ks, req_ctx = c, req_isPrefetch = True,
                    req_rest = drop (length ks) rest'\<rparr>
         | (ks, None) \<Rightarrow> ks = map (\<lambda>y. [(y, c, True)]) rest' @ [[]]"
          using Cons.IH [OF p] unfolding f .
        show ?thesis
          unfolding exec_Cons g Cons
          using h by (cases q) simp_all
      qed
    qed
  qed
qed

lemma setContext_launch:
  assumes "app s = Some a" and "c \<noteq> cur_context a" and "\<not> render_throws other (a\<lparr>cur_context := c\<rparr>)"
  shows "inflight (step other (EvSetContext c) s) = inflight s @
           [\<lparr>req_commodity = hd COMMODITIES, req_ctx = c, req_isPrefetch = True, req_rest = tl COMMODITIES\<rparr>]"
    and "issued (step other (EvSetContext c) s) = issued s @ [(hd COMMODITIES, c, True)]"
  using assms
  by (auto simp add: setContext_def Let_def render_def set_state_simps issue_simps COMMODITIES_def
      split: option.splits)

lemma mount_launch:
  "inflight mount =
     [\<lparr>req_commodity = hd COMMODITIES, req_ctx = India, req_isPrefetch = True, req_rest = tl COMMODITIES\<rparr>]"
  "issued mount = [(hd COMMODITIES, India, True)]"
  by (simp_all add: mount_def issue_simps COMMODITIES_def)




subsection \<open>A background refresh and the error state\<close>

text \<open>
  The run behind C1: a foreground fetch for Wheat fails with a rate limit and its message
  is shown; the next tick of the background refresh, which fails as well, leaves no error.
\<close>

theorem background_refresh_clears_error:
  "map_option error (app (exec no_other_throw
       [EvClick ''Wheat'', EvSettle 1 (Inl (JsError (Some ''got status: 429'')))] mount))
     = Some (Some ''Rate limit exceeded. Please wait.'')
   \<and> map_option loading (app (exec no_other_throw
       [EvClick ''Wheat'', EvSettle 1 (Inl (JsError (Some ''got status: 429'')))] mount)) = Some False
   \<and> map_option error (app (exec no_other_throw
       [EvClick ''Wheat'', EvSettle 1 (Inl (JsError (Some ''got status: 429''))),
        EvTick, EvSettle 1 (Inl (JsError (Some ''fetch failed'')))] mount)) = Some None"
  by (simp add: eval_defs error_message_def message_includes_def)

end
